theory Spec2Isabelle
  imports Complex_Main
begin

section \<open>JavaScript numbers\<close>

text \<open>
  Every number of the program is a JavaScript number, an IEEE double.  The model keeps
  \<open>NaN\<close> and the two infinities apart from the finite values, which are real numbers;
  the sign of zero is not modelled.

  The scorer adds and divides counts and metrics between 0 and 1, far from both ends
  of the range of the doubles: its operations \<open>js_add\<close> and \<open>js_div\<close> are the exact
  ones.  Division leaves the finite numbers there: \<open>0 / 0\<close> is \<open>NaN\<close> and \<open>x / 0\<close> an
  infinity.

  \<open>cosineSimilarity\<close> multiplies and adds whatever doubles it is given, and a product
  can overflow to an infinity or underflow to zero: each of its operations (\<open>dbl_add\<close>,
  \<open>dbl_mul\<close>, \<open>dbl_div\<close>, \<open>dbl_sqrt\<close>) is the exact operation followed by the
  rounding \<open>to_double\<close>.

  Reading past the end of an array gives \<open>undefined\<close>, which arithmetic turns into
  \<open>NaN\<close>.
\<close>

datatype jsnum = Num real | PosInf | NegInf | NaN

fun js_add :: "jsnum \<Rightarrow> jsnum \<Rightarrow> jsnum" where
  "js_add (Num x) (Num y) = Num (x + y)"
| "js_add NaN _ = NaN"
| "js_add _ NaN = NaN"
| "js_add PosInf NegInf = NaN"
| "js_add NegInf PosInf = NaN"
| "js_add PosInf _ = PosInf"
| "js_add _ PosInf = PosInf"
| "js_add NegInf _ = NegInf"
| "js_add _ NegInf = NegInf"

fun js_mul :: "jsnum \<Rightarrow> jsnum \<Rightarrow> jsnum" where
  "js_mul (Num x) (Num y) = Num (x * y)"
| "js_mul NaN _ = NaN"
| "js_mul _ NaN = NaN"
| "js_mul PosInf (Num y) = (if y = 0 then NaN else if 0 < y then PosInf else NegInf)"
| "js_mul NegInf (Num y) = (if y = 0 then NaN else if 0 < y then NegInf else PosInf)"
| "js_mul (Num x) PosInf = (if x = 0 then NaN else if 0 < x then PosInf else NegInf)"
| "js_mul (Num x) NegInf = (if x = 0 then NaN else if 0 < x then NegInf else PosInf)"
| "js_mul PosInf PosInf = PosInf"
| "js_mul NegInf NegInf = PosInf"
| "js_mul PosInf NegInf = NegInf"
| "js_mul NegInf PosInf = NegInf"

fun js_div :: "jsnum \<Rightarrow> jsnum \<Rightarrow> jsnum" where
  "js_div (Num x) (Num y) =
     (if y \<noteq> 0 then Num (x / y)
      else if x = 0 then NaN
      else if 0 < x then PosInf else NegInf)"
| "js_div NaN _ = NaN"
| "js_div _ NaN = NaN"
| "js_div (Num x) PosInf = Num 0"
| "js_div (Num x) NegInf = Num 0"
| "js_div PosInf (Num y) = (if 0 \<le> y then PosInf else NegInf)"
| "js_div NegInf (Num y) = (if 0 \<le> y then NegInf else PosInf)"
| "js_div PosInf _ = NaN"
| "js_div NegInf _ = NaN"

fun js_sqrt :: "jsnum \<Rightarrow> jsnum" where
  "js_sqrt (Num x) = (if x < 0 then NaN else Num (sqrt x))"
| "js_sqrt PosInf = PosInf"
| "js_sqrt NegInf = NaN"
| "js_sqrt NaN = NaN"

text \<open>The comparisons \<open><\<close> and \<open><=\<close>: false as soon as one side is \<open>NaN\<close>.\<close>

fun js_lt :: "jsnum \<Rightarrow> jsnum \<Rightarrow> bool" where
  "js_lt (Num x) (Num y) = (x < y)"
| "js_lt NaN _ = False"
| "js_lt _ NaN = False"
| "js_lt _ NegInf = False"
| "js_lt PosInf _ = False"
| "js_lt NegInf _ = True"
| "js_lt _ PosInf = True"

fun js_le :: "jsnum \<Rightarrow> jsnum \<Rightarrow> bool" where
  "js_le (Num x) (Num y) = (x \<le> y)"
| "js_le NaN _ = False"
| "js_le _ NaN = False"
| "js_le NegInf _ = True"
| "js_le _ PosInf = True"
| "js_le _ NegInf = False"
| "js_le PosInf _ = False"

text \<open>\<open>xs[i]\<close> as an operand of arithmetic: \<open>undefined\<close> past the end becomes \<open>NaN\<close>.\<close>

definition js_index :: "real list \<Rightarrow> nat \<Rightarrow> jsnum" where
  "js_index xs i = (if i < length xs then Num (xs ! i) else NaN)"

text \<open>
  Rounding to the nearest integer, a tie going to the even one.
\<close>

definition round_even :: "real \<Rightarrow> int" where
  "round_even r =
     (let f = \<lfloor>r\<rfloor>; d = r - of_int f
      in if d < 1 / 2 then f
         else if 1 / 2 < d then f + 1
         else if even f then f else f + 1)"

text \<open>
  Rounding a real number to the nearest double, a tie going to the even significand.
  With \<open>e\<close> the binary exponent of \<open>x\<close>, and \<open>- 1022\<close> for every smaller \<open>x\<close>, the
  doubles around \<open>x\<close> are the multiples of \<open>2 ^ (e - 52)\<close>; the nearest multiple is the
  result, unless its magnitude reaches \<open>2 ^ 1024\<close>, which is an infinity.  Below
  \<open>2 ^ (- 1075)\<close> the nearest multiple is zero.
\<close>

definition to_double :: "real \<Rightarrow> jsnum" where
  "to_double x =
     (if x = 0 then Num 0
      else
        let e = max \<lfloor>log 2 \<bar>x\<bar>\<rfloor> (- 1022);
            q = 2 powr of_int (e - 52);
            y = of_int (round_even (x / q)) * q
        in if 2 ^ 1024 \<le> \<bar>y\<bar> then (if 0 < x then PosInf else NegInf) else Num y)"

fun rounded :: "jsnum \<Rightarrow> jsnum" where
  "rounded (Num x) = to_double x"
| "rounded v = v"

text \<open>The operations of double arithmetic: the exact result, rounded.\<close>

definition dbl_add :: "jsnum \<Rightarrow> jsnum \<Rightarrow> jsnum" where
  "dbl_add x y = rounded (js_add x y)"

definition dbl_mul :: "jsnum \<Rightarrow> jsnum \<Rightarrow> jsnum" where
  "dbl_mul x y = rounded (js_mul x y)"

definition dbl_div :: "jsnum \<Rightarrow> jsnum \<Rightarrow> jsnum" where
  "dbl_div x y = rounded (js_div x y)"

definition dbl_sqrt :: "jsnum \<Rightarrow> jsnum" where
  "dbl_sqrt x = rounded (js_sqrt x)"



section \<open>Scorer: per-query metrics\<close>

text \<open>
  Document and section identifiers come from JSON: strings or integers.  The program
  compares them with \<open>===\<close>, which never identifies a string with a number.
\<close>

datatype ident = IdStr string | IdNum int

record payload =
  doc_id :: ident
  section_id :: ident
  payload_text :: string

record retrieved =
  score :: real
  payload :: payload

record qrel =
  qrel_doc_id :: ident
  qrel_section_id :: ident

definition isRelevant :: "retrieved \<Rightarrow> qrel \<Rightarrow> bool" where
  "isRelevant result q \<longleftrightarrow>
     doc_id (payload result) = qrel_doc_id q \<and>
     section_id (payload result) = qrel_section_id q"

definition isDocumentMatch :: "retrieved \<Rightarrow> qrel \<Rightarrow> bool" where
  "isDocumentMatch result q \<longleftrightarrow> doc_id (payload result) = qrel_doc_id q"

text \<open>
  The loop of \<open>calculateMRR\<close>, entered at index \<open>i\<close> with the results from \<open>i\<close> on:
  the first relevant result returns \<open>1 / (i + 1)\<close>, the end of the list returns \<open>0\<close>.
\<close>

fun calculateMRR_from :: "nat \<Rightarrow> retrieved list \<Rightarrow> qrel \<Rightarrow> jsnum" where
  "calculateMRR_from i [] q = Num 0"
| "calculateMRR_from i (r # rs) q =
     (if isRelevant r q then js_div (Num 1) (Num (real i + 1))
      else calculateMRR_from (Suc i) rs q)"

definition calculateMRR :: "retrieved list \<Rightarrow> qrel \<Rightarrow> jsnum" where
  "calculateMRR results q = calculateMRR_from 0 results q"

fun calculateDocMRR_from :: "nat \<Rightarrow> retrieved list \<Rightarrow> qrel \<Rightarrow> jsnum" where
  "calculateDocMRR_from i [] q = Num 0"
| "calculateDocMRR_from i (r # rs) q =
     (if isDocumentMatch r q then js_div (Num 1) (Num (real i + 1))
      else calculateDocMRR_from (Suc i) rs q)"

definition calculateDocMRR :: "retrieved list \<Rightarrow> qrel \<Rightarrow> jsnum" where
  "calculateDocMRR results q = calculateDocMRR_from 0 results q"

text \<open>
  \<open>results.slice(0, k)\<close> for a cutoff \<open>k\<close> that is a natural number is \<open>take k\<close>;
  the program calls these functions with the cutoffs 1, 3, 5 and 10.
\<close>

definition calculateRecallAtK :: "retrieved list \<Rightarrow> qrel \<Rightarrow> nat \<Rightarrow> jsnum" where
  "calculateRecallAtK results q k =
     (let topK = take k results;
          found = list_ex (\<lambda>r. isRelevant r q) topK
      in if found then Num 1 else Num 0)"

definition calculatePrecisionAtK :: "retrieved list \<Rightarrow> qrel \<Rightarrow> nat \<Rightarrow> jsnum" where
  "calculatePrecisionAtK results q k =
     (let topK = take k results;
          relevantCount = length (filter (\<lambda>r. isRelevant r q) topK)
      in js_div (Num (real relevantCount)) (Num (real k)))"

text \<open>The results and the ground truth of the scenario of the specification.\<close>

definition hit :: "string \<Rightarrow> int \<Rightarrow> retrieved" where
  "hit d s = \<lparr>score = 1, payload = \<lparr>doc_id = IdStr d, section_id = IdNum s, payload_text = []\<rparr>\<rparr>"

definition scenario_results :: "retrieved list" where
  "scenario_results = [hit ''A'' 2, hit ''A'' 5, hit ''B'' 1]"

definition scenario_truth :: qrel where
  "scenario_truth = \<lparr>qrel_doc_id = IdStr ''A'', qrel_section_id = IdNum 5\<rparr>"

text \<open>The number of exact matches in a results list.\<close>

definition exact_matches :: "retrieved list \<Rightarrow> qrel \<Rightarrow> nat" where
  "exact_matches results q = length (filter (\<lambda>r. isRelevant r q) results)"


section \<open>Scorer: aggregation and grouping\<close>

text \<open>
  The metrics object of one query has the ten keys that \<open>evaluateQuery\<close> writes and
  that \<open>aggregateMetrics\<close> enumerates with \<open>for (const key in metrics)\<close>; an object
  with a fixed set of keys is a function on the type of its keys.
\<close>

datatype metric_key =
  Mrr | DocMrr | Ndcg | Recall_at_1 | Recall_at_3 | Recall_at_5 | Recall_at_10
  | Precision_at_1 | Precision_at_3 | Precision_at_5

type_synonym query_metrics = "metric_key \<Rightarrow> jsnum"

text \<open>
  An evaluation, with the fields that aggregation and grouping read.  \<open>queryType\<close> and
  \<open>querySource\<close> are copied from the query's JSON: a string, or \<open>None\<close> when the field
  is absent or null.
\<close>

record evaluation =
  queryId :: string
  queryType :: "string option"
  querySource :: "string option"
  metrics :: query_metrics

definition aggregateMetrics :: "evaluation list \<Rightarrow> query_metrics" where
  "aggregateMetrics evaluations =
     (let count = length evaluations;
          summed = fold (\<lambda>evaluation m. (\<lambda>key. js_add (m key) (metrics evaluation key)))
                     evaluations (\<lambda>key. Num 0)
      in (\<lambda>key. js_div (summed key) (Num (real count))))"

text \<open>
  \<open>byType\<close> and \<open>bySource\<close> are object literals \<open>{}\<close>: the own properties, in the order
  in which they were created, and behind them the properties every object inherits from
  \<open>Object.prototype\<close>.  A read \<open>obj[key]\<close> finds the own property first and the inherited
  one otherwise; the inherited values are functions (and, for \<open>__proto__\<close>, the prototype
  object), all of them truthy and none of them with a \<open>push\<close> method.

  \<open>Object.entries\<close> lists integer-like keys before the others; the lists here keep the
  order of creation throughout, and nothing below depends on the order.
\<close>

datatype js_error = TypeError

type_synonym 'a js_object = "(string \<times> 'a) list"

definition objectPrototypeKeys :: "string list" where
  "objectPrototypeKeys =
     [''constructor'', ''__defineGetter__'', ''__defineSetter__'', ''hasOwnProperty'',
      ''__lookupGetter__'', ''__lookupSetter__'', ''isPrototypeOf'',
      ''propertyIsEnumerable'', ''toString'', ''valueOf'', ''__proto__'',
      ''toLocaleString'']"

text \<open>\<open>value || 'unknown'\<close>: absent, null and the empty string are falsy.\<close>

definition or_unknown :: "string option \<Rightarrow> string" where
  "or_unknown v = (case v of None \<Rightarrow> ''unknown'' | Some s \<Rightarrow> if s = [] then ''unknown'' else s)"

text \<open>
  \<open>if (!obj[key]) obj[key] = []\<close>: an own property holds an array, which is truthy, and
  so is every inherited value; only a key found nowhere gets a new empty array.
\<close>

definition ensure_bucket :: "evaluation list js_object \<Rightarrow> string \<Rightarrow> evaluation list js_object" where
  "ensure_bucket obj key =
     (if map_of obj key \<noteq> None then obj
      else if key \<in> set objectPrototypeKeys then obj
      else obj @ [(key, [])])"

fun append_to :: "string \<Rightarrow> evaluation \<Rightarrow> evaluation list js_object \<Rightarrow> evaluation list js_object" where
  "append_to key e [] = []"
| "append_to key e ((k, evs) # rest) =
     (if k = key then (k, evs @ [e]) # rest else (k, evs) # append_to key e rest)"

text \<open>
  \<open>obj[key].push(evaluation)\<close>: on an own property the array grows; otherwise the value
  read is inherited or \<open>undefined\<close>, \<open>push\<close> is not a function of it, and the call
  throws a \<open>TypeError\<close>.
\<close>

definition push_bucket ::
  "evaluation list js_object \<Rightarrow> string \<Rightarrow> evaluation \<Rightarrow> js_error + evaluation list js_object" where
  "push_bucket obj key e =
     (if map_of obj key \<noteq> None then Inr (append_to key e obj) else Inl TypeError)"

fun group_loop ::
  "evaluation list \<Rightarrow> evaluation list js_object \<times> evaluation list js_object \<Rightarrow>
   js_error + (evaluation list js_object \<times> evaluation list js_object)" where
  "group_loop [] st = Inr st"
| "group_loop (evaluation # rest) (byT, byS) =
     (let type = or_unknown (queryType evaluation);
          source = or_unknown (querySource evaluation);
          byT1 = ensure_bucket byT type;
          byS1 = ensure_bucket byS source
      in case push_bucket byT1 type evaluation of
           Inl err \<Rightarrow> Inl err
         | Inr byT2 \<Rightarrow>
             (case push_bucket byS1 source evaluation of
                Inl err \<Rightarrow> Inl err
              | Inr byS2 \<Rightarrow> group_loop rest (byT2, byS2)))"

record group_entry =
  count :: nat
  entry_metrics :: query_metrics

record grouped =
  byType :: "group_entry js_object"
  bySource :: "group_entry js_object"

definition summarise :: "evaluation list js_object \<Rightarrow> group_entry js_object" where
  "summarise obj =
     map (\<lambda>(key, evals). (key, \<lparr>count = length evals, entry_metrics = aggregateMetrics evals\<rparr>)) obj"

definition groupMetrics :: "evaluation list \<Rightarrow> js_error + grouped" where
  "groupMetrics evaluations =
     (case group_loop evaluations ([], []) of
        Inl err \<Rightarrow> Inl err
      | Inr (byT, byS) \<Rightarrow> Inr \<lparr>byType = summarise byT, bySource = summarise byS\<rparr>)"

text \<open>The bucket an evaluation is filed under, and the sum of the bucket counts.\<close>

definition type_bucket :: "evaluation \<Rightarrow> string" where
  "type_bucket e = or_unknown (queryType e)"

definition source_bucket :: "evaluation \<Rightarrow> string" where
  "source_bucket e = or_unknown (querySource e)"

definition total_count :: "group_entry js_object \<Rightarrow> nat" where
  "total_count obj = sum_list (map (\<lambda>(key, entry). count entry) obj)"

text \<open>
  One iteration of the grouping loop on one of the two objects, for a key that is
  not inherited: the bucket is created if need be and the evaluation appended.
\<close>

definition file_under :: "evaluation list js_object \<Rightarrow> string \<Rightarrow> evaluation \<Rightarrow> evaluation list js_object" where
  "file_under obj key e = append_to key e (ensure_bucket obj key)"

definition bucket_total :: "evaluation list js_object \<Rightarrow> nat" where
  "bucket_total obj = sum_list (map (\<lambda>(key, evals). length evals) obj)"

text \<open>No evaluation is filed under the name of an inherited property.\<close>

definition safe_keys :: "evaluation list \<Rightarrow> bool" where
  "safe_keys evs \<longleftrightarrow>
     list_all (\<lambda>e. type_bucket e \<notin> set objectPrototypeKeys \<and>
                    source_bucket e \<notin> set objectPrototypeKeys) evs"

text \<open>Evaluations for the examples.\<close>

definition unit_metrics :: query_metrics where
  "unit_metrics key = Num 1"

definition constructor_evaluation :: evaluation where
  "constructor_evaluation =
     \<lparr>queryId = ''q1'', queryType = Some ''constructor'', querySource = Some ''paper'',
      metrics = unit_metrics\<rparr>"

definition blank_evaluation :: evaluation where
  "blank_evaluation =
     \<lparr>queryId = ''q2'', queryType = Some [], querySource = None, metrics = unit_metrics\<rparr>"


section \<open>Chunker\<close>

text \<open>
  \<open>cosineSimilarity\<close>: one pass over the indices of \<open>a\<close> with three accumulators, in
  double arithmetic.  The embedding vectors come from a JSON response, so their elements
  are finite numbers.
\<close>

definition cosine_step ::
  "real list \<Rightarrow> real list \<Rightarrow> nat \<Rightarrow> jsnum \<times> jsnum \<times> jsnum \<Rightarrow> jsnum \<times> jsnum \<times> jsnum" where
  "cosine_step a b i acc =
     (case acc of (dot, normA, normB) \<Rightarrow>
        (dbl_add dot (dbl_mul (js_index a i) (js_index b i)),
         dbl_add normA (dbl_mul (js_index a i) (js_index a i)),
         dbl_add normB (dbl_mul (js_index b i) (js_index b i))))"

definition cosineSimilarity :: "real list \<Rightarrow> real list \<Rightarrow> jsnum" where
  "cosineSimilarity a b =
     (case fold (cosine_step a b) [0..<length a] (Num 0, Num 0, Num 0) of
        (dot, normA, normB) \<Rightarrow> dbl_div dot (dbl_mul (dbl_sqrt normA) (dbl_sqrt normB)))"





text \<open>
  The options object: each field may be left out and then takes its default
  (\<open>threshold = 0.65\<close>, \<open>maxTokens = 500\<close>, \<open>minTokens = 100\<close>).  Token limits are natural
  numbers.
\<close>

record chunk_options =
  threshold :: "real option"
  maxTokens :: "nat option"
  minTokens :: "nat option"

definition opt_threshold :: "chunk_options \<Rightarrow> real" where
  "opt_threshold opts = (case threshold opts of None \<Rightarrow> 65 / 100 | Some t \<Rightarrow> t)"

definition opt_maxTokens :: "chunk_options \<Rightarrow> nat" where
  "opt_maxTokens opts = (case maxTokens opts of None \<Rightarrow> 500 | Some n \<Rightarrow> n)"

definition opt_minTokens :: "chunk_options \<Rightarrow> nat" where
  "opt_minTokens opts = (case minTokens opts of None \<Rightarrow> 100 | Some n \<Rightarrow> n)"

text \<open>\<open>sentences.join(' ')\<close>.\<close>

fun join_space :: "string list \<Rightarrow> string" where
  "join_space [] = []"
| "join_space [s] = s"
| "join_space (s # t # rest) = s @ '' '' @ join_space (t # rest)"

text \<open>
  The state of the loop.  A finished chunk is stored as \<open>flush currentSentences\<close>; the
  program stores the joined string, \<open>flush = join_space\<close>, and the properties of the
  grouping are stated with \<open>flush\<close> the identity, which keeps the sentences of each chunk.
\<close>

record 'c chunk_state =
  chunks :: "'c list"
  currentSentences :: "string list"
  currentTokens :: nat

text \<open>
  One iteration, for the sentence \<open>sent\<close> with embedding \<open>sentEmbedding\<close> and token count
  \<open>encodeLength sent\<close>; \<open>prevEmbedding\<close> is the embedding of the sentence before it.
\<close>

definition chunk_step ::
  "(string list \<Rightarrow> 'c) \<Rightarrow> (string \<Rightarrow> nat) \<Rightarrow> real \<Rightarrow> nat \<Rightarrow> nat \<Rightarrow>
   real list \<Rightarrow> string \<Rightarrow> real list \<Rightarrow> 'c chunk_state \<Rightarrow> 'c chunk_state" where
  "chunk_step flush encodeLength thr maxT minT prevEmbedding sent sentEmbedding st =
     (let sentTokens = encodeLength sent in
      if currentSentences st = [] then
        st\<lparr>currentSentences := currentSentences st @ [sent],
           currentTokens := currentTokens st + sentTokens\<rparr>
      else
        let similarity = cosineSimilarity prevEmbedding sentEmbedding;
            shouldSplit = (js_lt similarity (Num thr) \<or> currentTokens st + sentTokens > maxT)
        in if shouldSplit \<and> currentTokens st \<ge> minT then
             \<lparr>chunks = chunks st @ [flush (currentSentences st)],
              currentSentences = [sent],
              currentTokens = sentTokens\<rparr>
           else
             st\<lparr>currentSentences := currentSentences st @ [sent],
                currentTokens := currentTokens st + sentTokens\<rparr>)"

text \<open>
  The loop over the sentences and their embeddings, in order.  In the first iteration
  the buffer is empty and \<open>prevEmbedding\<close> is not read.
\<close>

fun chunk_loop ::
  "(string list \<Rightarrow> 'c) \<Rightarrow> (string \<Rightarrow> nat) \<Rightarrow> real \<Rightarrow> nat \<Rightarrow> nat \<Rightarrow>
   real list \<Rightarrow> (string \<times> real list) list \<Rightarrow> 'c chunk_state \<Rightarrow> 'c chunk_state" where
  "chunk_loop flush encodeLength thr maxT minT prev [] st = st"
| "chunk_loop flush encodeLength thr maxT minT prev ((sent, emb) # rest) st =
     chunk_loop flush encodeLength thr maxT minT emb rest
       (chunk_step flush encodeLength thr maxT minT prev sent emb st)"

definition chunk_sentences ::
  "(string list \<Rightarrow> 'c) \<Rightarrow> (string \<Rightarrow> nat) \<Rightarrow> chunk_options \<Rightarrow>
   string list \<Rightarrow> real list list \<Rightarrow> 'c list" where
  "chunk_sentences flush encodeLength opts sentences sentenceEmbeddings =
     (let st = chunk_loop flush encodeLength (opt_threshold opts) (opt_maxTokens opts)
                 (opt_minTokens opts) [] (zip sentences sentenceEmbeddings)
                 \<lparr>chunks = [], currentSentences = [], currentTokens = 0\<rparr>
      in if currentSentences st \<noteq> [] then chunks st @ [flush (currentSentences st)]
         else chunks st)"

text \<open>
  \<open>Promise.all\<close> over the embedding calls: the vectors in sentence order when every call
  succeeds, a rejection as soon as one fails.
\<close>

datatype chunk_error = EmbeddingRejected

fun promise_all :: "'a option list \<Rightarrow> 'a list option" where
  "promise_all [] = Some []"
| "promise_all (None # rest) = None"
| "promise_all (Some x # rest) = map_option ((#) x) (promise_all rest)"

text \<open>
  A run of \<open>semanticChunkWithLimits\<close>: the texts the embedding function was called with,
  in order, and the outcome of the promise.  The sentence segmenter, the tokenizer and
  the embedding function are the external collaborators; an embedding call that fails is
  \<open>None\<close>.
\<close>

record chunk_run =
  embedCalls :: "string list"
  outcome :: "chunk_error + string list"

definition semanticChunkWithLimits ::
  "(string \<Rightarrow> string list) \<Rightarrow> (string \<Rightarrow> nat) \<Rightarrow>
   string \<Rightarrow> (string \<Rightarrow> real list option) \<Rightarrow> chunk_options \<Rightarrow> chunk_run" where
  "semanticChunkWithLimits splitIntoSentences encodeLength text embedFn opts =
     (let sentences = splitIntoSentences text in
      \<lparr>embedCalls = sentences,
       outcome =
         (case promise_all (map embedFn sentences) of
            None \<Rightarrow> Inl EmbeddingRejected
          | Some sentenceEmbeddings \<Rightarrow>
              Inr (chunk_sentences join_space encodeLength opts sentences sentenceEmbeddings))\<rparr>)"

text \<open>
  The grouping behind the returned strings: the same run, each chunk kept as the list of
  its sentences.
\<close>

definition chunk_groups ::
  "(string \<Rightarrow> string list) \<Rightarrow> (string \<Rightarrow> nat) \<Rightarrow>
   string \<Rightarrow> (string \<Rightarrow> real list option) \<Rightarrow> chunk_options \<Rightarrow> string list list" where
  "chunk_groups splitIntoSentences encodeLength text embedFn opts =
     (let sentences = splitIntoSentences text in
      case promise_all (map embedFn sentences) of
        None \<Rightarrow> []
      | Some sentenceEmbeddings \<Rightarrow>
          chunk_sentences (\<lambda>ss. ss) encodeLength opts sentences sentenceEmbeddings)"

definition chunk_tokens :: "(string \<Rightarrow> nat) \<Rightarrow> string list \<Rightarrow> nat" where
  "chunk_tokens encodeLength ss = sum_list (map encodeLength ss)"

text \<open>Collaborators for the examples: sentences end at a full stop, one token per character,
  and an embedding that maps every sentence to the same unit vector.\<close>

fun stop_sentences :: "string \<Rightarrow> string \<Rightarrow> string list" where
  "stop_sentences acc [] = (if acc = [] then [] else [acc])"
| "stop_sentences acc (c # cs) =
     (if c = CHR ''.'' then (acc @ [c]) # stop_sentences [] cs
      else stop_sentences (acc @ [c]) cs)"

definition split_at_stops :: "string \<Rightarrow> string list" where
  "split_at_stops text = stop_sentences [] text"

definition char_count :: "string \<Rightarrow> nat" where
  "char_count s = length s"

definition unit_embedding :: "string \<Rightarrow> real list option" where
  "unit_embedding s = Some [1]"



text \<open>
  The token limit as the specification states it: a chunk stays within \<open>maxTokens\<close>,
  or it is one sentence that alone exceeds \<open>maxTokens\<close>.
\<close>

definition within_hard_cap :: "(string \<Rightarrow> nat) \<Rightarrow> nat \<Rightarrow> string list \<Rightarrow> bool" where
  "within_hard_cap encodeLength maxT g \<longleftrightarrow>
     chunk_tokens encodeLength g \<le> maxT \<or>
     (length g = 1 \<and> maxT < chunk_tokens encodeLength g)"

text \<open>
  What the loop adds to it: the sentences before the last one of a chunk had fewer than
  \<open>minTokens\<close> tokens, so the loop was not allowed to split before the last one.
\<close>

definition split_suppressed :: "(string \<Rightarrow> nat) \<Rightarrow> nat \<Rightarrow> string list \<Rightarrow> bool" where
  "split_suppressed encodeLength minT g \<longleftrightarrow> chunk_tokens encodeLength (butlast g) < minT"

definition capped :: "(string \<Rightarrow> nat) \<Rightarrow> nat \<Rightarrow> nat \<Rightarrow> string list \<Rightarrow> bool" where
  "capped encodeLength maxT minT g \<longleftrightarrow>
     within_hard_cap encodeLength maxT g \<or> split_suppressed encodeLength minT g"

text \<open>The invariant of the loop when the chunks are kept as sentence lists.\<close>

definition chunk_inv ::
  "(string \<Rightarrow> nat) \<Rightarrow> nat \<Rightarrow> nat \<Rightarrow> string list chunk_state \<Rightarrow> bool" where
  "chunk_inv encodeLength maxT minT st \<longleftrightarrow>
     currentTokens st = chunk_tokens encodeLength (currentSentences st) \<and>
     list_all (capped encodeLength maxT minT) (chunks st) \<and>
     (currentSentences st = [] \<or> capped encodeLength maxT minT (currentSentences st))"

text \<open>The state of the program's loop, read off the state that keeps the sentence lists.\<close>

definition flush_state :: "(string list \<Rightarrow> 'c) \<Rightarrow> string list chunk_state \<Rightarrow> 'c chunk_state" where
  "flush_state flush st =
     \<lparr>chunks = map flush (chunks st), currentSentences = currentSentences st,
      currentTokens = currentTokens st\<rparr>"

text \<open>The options the specification calls valid, and options for the examples.\<close>

definition valid_options :: "chunk_options \<Rightarrow> bool" where
  "valid_options opts \<longleftrightarrow>
     0 \<le> opt_threshold opts \<and> opt_threshold opts \<le> 1 \<and>
     0 < opt_maxTokens opts \<and> 0 < opt_minTokens opts \<and>
     opt_minTokens opts \<le> opt_maxTokens opts"

definition tight_options :: chunk_options where
  "tight_options = \<lparr>threshold = None, maxTokens = Some 5, minTokens = Some 3\<rparr>"

definition reversed_options :: chunk_options where
  "reversed_options = \<lparr>threshold = None, maxTokens = Some 3, minTokens = Some 5\<rparr>"

section \<open>Properties of the per-query metrics\<close>

lemma isRelevant_imp_isDocumentMatch: "isRelevant r q \<Longrightarrow> isDocumentMatch r q"
  by (simp add: isRelevant_def isDocumentMatch_def)

text \<open>
  Claim C3.  On the results \<open>[A/2, A/5, B/1]\<close> with ground truth \<open>A/5\<close> the metric
  functions return \<open>mrr = 0.5\<close>, \<open>docMrr = 1\<close>, \<open>recall@1 = 0\<close>, \<open>recall@3 = 1\<close>,
  \<open>precision@1 = 0\<close> and \<open>precision@3 = 1/3\<close>.
\<close>

theorem scenario_metrics:
  "calculateMRR scenario_results scenario_truth = Num (1 / 2) \<and>
   calculateDocMRR scenario_results scenario_truth = Num 1 \<and>
   calculateRecallAtK scenario_results scenario_truth 1 = Num 0 \<and>
   calculateRecallAtK scenario_results scenario_truth 3 = Num 1 \<and>
   calculatePrecisionAtK scenario_results scenario_truth 1 = Num 0 \<and>
   calculatePrecisionAtK scenario_results scenario_truth 3 = Num (1 / 3)"
  by (simp add: calculateMRR_def calculateDocMRR_def calculateRecallAtK_def
      calculatePrecisionAtK_def scenario_results_def scenario_truth_def hit_def
      isRelevant_def isDocumentMatch_def eval_nat_numeral)

text \<open>
  Claim C8.  On a results list shorter than \<open>k\<close>, \<open>precision@k\<close> is the number of exact
  matches in the list divided by \<open>k\<close> itself, not by the length of the list; with no
  match it is \<open>0\<close>.
\<close>

theorem precision_short_list:
  assumes "length results < k"
  shows "calculatePrecisionAtK results q k = Num (real (exact_matches results q) / real k) \<and>
         (exact_matches results q = 0 \<longrightarrow> calculatePrecisionAtK results q k = Num 0)"
  using assms by (simp add: calculatePrecisionAtK_def exact_matches_def)

text \<open>Claim C8 at one result that is no match and \<open>k = 3\<close>.\<close>

theorem precision_short_list_witness:
  "length [hit ''A'' 2] < (3::nat) \<and>
   exact_matches [hit ''A'' 2] scenario_truth = 0 \<and>
   calculatePrecisionAtK [hit ''A'' 2] scenario_truth 3 =
     Num (real (exact_matches [hit ''A'' 2] scenario_truth) / real 3) \<and>
   calculatePrecisionAtK [hit ''A'' 2] scenario_truth 3 = Num 0"
  using precision_short_list [of "[hit ''A'' 2]" 3 scenario_truth]
  by (simp add: exact_matches_def isRelevant_def hit_def scenario_truth_def)

text \<open>
  From index \<open>i\<close> on, the exact-match loop returns a finite number between \<open>0\<close> and
  \<open>1 / (i + 1)\<close>.
\<close>

lemma calculateMRR_from_bounds:
  "\<exists>x. calculateMRR_from i rs q = Num x \<and> 0 \<le> x \<and> x \<le> 1 / (real i + 1)"
proof (induction rs arbitrary: i)
  case Nil
  then show ?case by simp
next
  case (Cons r rs)
  show ?case
  proof (cases "isRelevant r q")
    case True
    then show ?thesis by simp
  next
    case False
    from Cons.IH [of "Suc i"] obtain x where
      x: "calculateMRR_from (Suc i) rs q = Num x" "0 \<le> x" "x \<le> 1 / (real (Suc i) + 1)"
      by blast
    have "1 / (real (Suc i) + 1) \<le> 1 / (real i + 1)"
      by (simp add: frac_le)
    with x False show ?thesis by simp
  qed
qed

lemma MRR_from_le_DocMRR_from:
  "js_le (calculateMRR_from i rs q) (calculateDocMRR_from i rs q)"
proof (induction rs arbitrary: i)
  case Nil
  then show ?case by simp
next
  case (Cons r rs)
  show ?case
  proof (cases "isDocumentMatch r q")
    case True
    show ?thesis
    proof (cases "isRelevant r q")
      case True
      with \<open>isDocumentMatch r q\<close> show ?thesis by simp
    next
      case False
      from calculateMRR_from_bounds [of "Suc i" rs q] obtain x where
        x: "calculateMRR_from (Suc i) rs q = Num x" "x \<le> 1 / (real (Suc i) + 1)"
        by blast
      have "1 / (real (Suc i) + 1) \<le> 1 / (real i + 1)"
        by (simp add: frac_le)
      with x False True show ?thesis by simp
    qed
  next
    case False
    then have "\<not> isRelevant r q"
      using isRelevant_imp_isDocumentMatch by blast
    with False Cons.IH show ?thesis by simp
  qed
qed

text \<open>
  Claim C9.  The document-level MRR is at least the exact-match MRR, for every results
  list and every ground truth: an exact match is a document match, so the first document
  match comes no later than the first exact match.
\<close>

theorem docMRR_ge_MRR:
  "js_le (calculateMRR results q) (calculateDocMRR results q)"
  unfolding calculateMRR_def calculateDocMRR_def by (rule MRR_from_le_DocMRR_from)


section \<open>Properties of aggregation\<close>

lemma fold_sum_metrics:
  assumes "\<forall>e \<in> set evs. metrics e key = Num (v e)"
  shows "fold (\<lambda>evaluation m. (\<lambda>key. js_add (m key) (metrics evaluation key))) evs m0 key
         = fold (\<lambda>e acc. js_add acc (Num (v e))) evs (m0 key)"
  using assms by (induction evs arbitrary: m0) simp_all

lemma fold_add_Num:
  "fold (\<lambda>e acc. js_add acc (Num (v e))) evs (Num a) = Num (a + sum_list (map v evs))"
  by (induction evs arbitrary: a) (simp_all add: add.assoc)

text \<open>
  Claim C4, as the program has it.  Over a non-empty list whose values under a key are
  finite numbers, aggregation returns their arithmetic mean; over the empty list it
  returns \<open>NaN\<close> under every key (\<open>0 / 0\<close>) and raises nothing.
\<close>

theorem aggregate_mean_or_nan:
  "(evs \<noteq> [] \<longrightarrow> (\<forall>e \<in> set evs. metrics e key = Num (v e)) \<longrightarrow>
      aggregateMetrics evs key = Num (sum_list (map v evs) / real (length evs))) \<and>
   aggregateMetrics [] key = NaN"
proof (intro conjI impI)
  assume ne: "evs \<noteq> []" and fin: "\<forall>e \<in> set evs. metrics e key = Num (v e)"
  have "fold (\<lambda>evaluation m. (\<lambda>key. js_add (m key) (metrics evaluation key))) evs (\<lambda>key. Num 0) key
        = Num (sum_list (map v evs))"
    using fold_sum_metrics [OF fin, of "\<lambda>key. Num 0"] by (simp add: fold_add_Num)
  with ne show "aggregateMetrics evs key = Num (sum_list (map v evs) / real (length evs))"
    by (simp add: aggregateMetrics_def)
next
  show "aggregateMetrics [] key = NaN"
    by (simp add: aggregateMetrics_def)
qed

text \<open>Claim C4 as amended, at two evaluations with the value 1 under every key.\<close>

theorem aggregate_mean_or_nan_witness:
  "[constructor_evaluation, blank_evaluation] \<noteq> [] \<and>
   aggregateMetrics [constructor_evaluation, blank_evaluation] Mrr = Num 1 \<and>
   aggregateMetrics [] Mrr = NaN"
  using aggregate_mean_or_nan [of "[constructor_evaluation, blank_evaluation]" Mrr "\<lambda>e. 1"]
  by (simp add: constructor_evaluation_def blank_evaluation_def unit_metrics_def)

text \<open>
  Claim C4 as stated fails on the empty list: aggregation does not fail there, it returns
  \<open>NaN\<close>.
\<close>

theorem aggregate_empty_is_nan: "aggregateMetrics [] Mrr = NaN"
  by (simp add: aggregateMetrics_def)


section \<open>Properties of grouping\<close>

lemma or_unknown_falsy: "or_unknown None = ''unknown''" "or_unknown (Some []) = ''unknown''"
  by (simp_all add: or_unknown_def)

lemma map_of_append_to:
  "map_of (append_to key e obj) k
   = (if k = key then map_option (\<lambda>evs. evs @ [e]) (map_of obj key) else map_of obj k)"
  by (induction obj) auto

lemma keys_append_to: "map fst (append_to key e obj) = map fst obj"
  by (induction obj) auto

lemma total_append_to:
  "map_of obj key \<noteq> None \<Longrightarrow> bucket_total (append_to key e obj) = Suc (bucket_total obj)"
  by (induction obj) (auto simp: bucket_total_def)

lemma map_of_ensure:
  "key \<notin> set objectPrototypeKeys \<Longrightarrow> map_of (ensure_bucket obj key) key \<noteq> None"
  by (simp add: ensure_bucket_def map_add_def)

lemma map_of_ensure_other:
  "map_of obj k = Some evs \<Longrightarrow> map_of (ensure_bucket obj key) k = Some evs"
  by (simp add: ensure_bucket_def map_add_def)

lemma total_ensure: "bucket_total (ensure_bucket obj key) = bucket_total obj"
  by (simp add: ensure_bucket_def bucket_total_def)

lemma distinct_ensure:
  "distinct (map fst obj) \<Longrightarrow> distinct (map fst (ensure_bucket obj key))"
  by (auto simp: ensure_bucket_def map_of_eq_None_iff)

lemma push_after_ensure:
  "key \<notin> set objectPrototypeKeys \<Longrightarrow>
   push_bucket (ensure_bucket obj key) key e = Inr (file_under obj key e)"
  by (simp add: push_bucket_def file_under_def map_of_ensure)

lemma push_inherited:
  "key \<in> set objectPrototypeKeys \<Longrightarrow> map_of obj key = None \<Longrightarrow>
   push_bucket (ensure_bucket obj key) key e = Inl TypeError"
  by (simp add: push_bucket_def ensure_bucket_def)

lemma total_file_under:
  "key \<notin> set objectPrototypeKeys \<Longrightarrow> bucket_total (file_under obj key e) = Suc (bucket_total obj)"
  by (simp add: file_under_def total_append_to map_of_ensure total_ensure)

lemma distinct_file_under:
  "distinct (map fst obj) \<Longrightarrow> distinct (map fst (file_under obj key e))"
  by (simp add: file_under_def keys_append_to distinct_ensure)

lemma member_file_under:
  "key \<notin> set objectPrototypeKeys \<Longrightarrow> \<exists>evs. map_of (file_under obj key e) key = Some evs \<and> e \<in> set evs"
  using map_of_ensure [of key obj] by (auto simp: file_under_def map_of_append_to)

lemma member_kept:
  "map_of obj k = Some evs \<Longrightarrow> e \<in> set evs \<Longrightarrow>
   \<exists>evs'. map_of (file_under obj key e') k = Some evs' \<and> e \<in> set evs'"
proof -
  assume m: "map_of obj k = Some evs" and e: "e \<in> set evs"
  from m have "map_of (ensure_bucket obj key) k = Some evs"
    by (rule map_of_ensure_other)
  with e show ?thesis
    by (auto simp: file_under_def map_of_append_to)
qed

lemma group_loop_safe:
  assumes "safe_keys evs"
  shows "group_loop evs (byT, byS)
         = Inr (fold (\<lambda>e obj. file_under obj (type_bucket e) e) evs byT,
                fold (\<lambda>e obj. file_under obj (source_bucket e) e) evs byS)"
  using assms
proof (induction evs arbitrary: byT byS)
  case Nil
  then show ?case by simp
next
  case (Cons e evs)
  then have t: "type_bucket e \<notin> set objectPrototypeKeys"
    and s: "source_bucket e \<notin> set objectPrototypeKeys" and rest: "safe_keys evs"
    by (simp_all add: safe_keys_def)
  show ?case
    using push_after_ensure [OF t, of byT e] push_after_ensure [OF s, of byS e] Cons.IH [OF rest]
    by (simp add: Let_def type_bucket_def source_bucket_def)
qed

lemma fold_file_total:
  "list_all (\<lambda>e. key e \<notin> set objectPrototypeKeys) evs \<Longrightarrow>
   bucket_total (fold (\<lambda>e obj. file_under obj (key e) e) evs obj) = bucket_total obj + length evs"
  by (induction evs arbitrary: obj) (simp_all add: total_file_under)

lemma fold_file_distinct:
  "distinct (map fst obj) \<Longrightarrow>
   distinct (map fst (fold (\<lambda>e obj. file_under obj (key e) e) evs obj))"
  by (induction evs arbitrary: obj) (simp_all add: distinct_file_under)

lemma fold_file_kept:
  "map_of obj k = Some evs0 \<Longrightarrow> e \<in> set evs0 \<Longrightarrow>
   \<exists>evs'. map_of (fold (\<lambda>e obj. file_under obj (key e) e) evs obj) k = Some evs' \<and> e \<in> set evs'"
proof (induction evs arbitrary: obj evs0)
  case Nil
  then show ?case by simp
next
  case (Cons x evs)
  from member_kept [OF Cons.prems, of "key x" x] obtain evs1 where
    "map_of (file_under obj (key x) x) k = Some evs1" "e \<in> set evs1" by blast
  from Cons.IH [OF this] show ?case by simp
qed

lemma fold_file_member:
  "list_all (\<lambda>e. key e \<notin> set objectPrototypeKeys) evs \<Longrightarrow> e \<in> set evs \<Longrightarrow>
   \<exists>evs'. map_of (fold (\<lambda>e obj. file_under obj (key e) e) evs obj) (key e) = Some evs' \<and> e \<in> set evs'"
proof (induction evs arbitrary: obj)
  case Nil
  then show ?case by simp
next
  case (Cons x evs)
  show ?case
  proof (cases "e = x")
    case True
    from Cons.prems(1) have "key x \<notin> set objectPrototypeKeys" by simp
    from member_file_under [OF this, of obj x] obtain evs1 where
      "map_of (file_under obj (key x) x) (key x) = Some evs1" "x \<in> set evs1" by blast
    from fold_file_kept [OF this] True show ?thesis by simp
  next
    case False
    with Cons.prems have "e \<in> set evs" "list_all (\<lambda>e. key e \<notin> set objectPrototypeKeys) evs"
      by simp_all
    from Cons.IH [OF this(2) this(1)] show ?thesis by simp
  qed
qed

lemma total_summarise: "total_count (summarise obj) = bucket_total obj"
  by (induction obj) (auto simp: total_count_def summarise_def bucket_total_def)

lemma keys_summarise: "map fst (summarise obj) = map fst obj"
  by (induction obj) (auto simp: summarise_def)

lemma map_of_summarise:
  "map_of (summarise obj) k
   = map_option (\<lambda>evals. \<lparr>count = length evals, entry_metrics = aggregateMetrics evals\<rparr>) (map_of obj k)"
  by (induction obj) (auto simp: summarise_def)

text \<open>
  When no evaluation is filed under the name of an inherited property, grouping
  succeeds, the keys of each grouping are distinct, every evaluation has its bucket, and
  the counts of each grouping add up to the number of evaluations.
\<close>

lemma grouping_partitions_safe_keys:
  assumes "safe_keys evs"
  shows "\<exists>g. groupMetrics evs = Inr g \<and>
           total_count (byType g) = length evs \<and> total_count (bySource g) = length evs \<and>
           distinct (map fst (byType g)) \<and> distinct (map fst (bySource g)) \<and>
           (\<forall>e \<in> set evs. type_bucket e \<in> fst ` set (byType g) \<and>
                          source_bucket e \<in> fst ` set (bySource g))"
proof -
  let ?T = "fold (\<lambda>e obj. file_under obj (type_bucket e) e) evs []"
  let ?S = "fold (\<lambda>e obj. file_under obj (source_bucket e) e) evs []"
  let ?g = "\<lparr>byType = summarise ?T, bySource = summarise ?S\<rparr>"
  from assms have st: "list_all (\<lambda>e. type_bucket e \<notin> set objectPrototypeKeys) evs"
    and ss: "list_all (\<lambda>e. source_bucket e \<notin> set objectPrototypeKeys) evs"
    by (simp_all add: safe_keys_def list_all_iff)
  have g: "groupMetrics evs = Inr ?g"
    by (simp add: groupMetrics_def group_loop_safe [OF assms])
  have "total_count (byType ?g) = length evs"
    using fold_file_total [OF st, of "[]"] by (simp add: total_summarise bucket_total_def)
  moreover have "total_count (bySource ?g) = length evs"
    using fold_file_total [OF ss, of "[]"] by (simp add: total_summarise bucket_total_def)
  moreover have "distinct (map fst (byType ?g))" "distinct (map fst (bySource ?g))"
    by (simp_all add: keys_summarise fold_file_distinct)
  moreover have "type_bucket e \<in> fst ` set (byType ?g) \<and> source_bucket e \<in> fst ` set (bySource ?g)"
    if "e \<in> set evs" for e
  proof -
    from fold_file_member [OF st that, of "[]"] have "map_of ?T (type_bucket e) \<noteq> None" by auto
    moreover from fold_file_member [OF ss that, of "[]"] have "map_of ?S (source_bucket e) \<noteq> None" by auto
    ultimately show ?thesis
      using keys_summarise [of ?T] keys_summarise [of ?S]
      by (simp add: map_of_eq_None_iff flip: set_map)
  qed
  ultimately show ?thesis using g by blast
qed

text \<open>
  An evaluation whose type is the empty string and whose source is absent goes to the
  bucket \<open>unknown\<close> of both groupings.
\<close>

lemma blank_type_is_unknown:
  "groupMetrics [blank_evaluation]
   = Inr \<lparr>byType = [(''unknown'', \<lparr>count = 1, entry_metrics = aggregateMetrics [blank_evaluation]\<rparr>)],
          bySource = [(''unknown'', \<lparr>count = 1, entry_metrics = aggregateMetrics [blank_evaluation]\<rparr>)]\<rparr>"
  by (simp add: groupMetrics_def blank_evaluation_def or_unknown_def ensure_bucket_def
      push_bucket_def objectPrototypeKeys_def Let_def summarise_def)

text \<open>
  Claim C10.  An empty, absent or null type is filed under \<open>unknown\<close>, and every
  evaluation should land in one bucket per grouping, the counts adding up to the number
  of evaluations.  The program misses the keys that \<open>{}\<close> inherits: for the query type
  \<open>constructor\<close> the read \<open>byType[type]\<close> finds the inherited function, no bucket is
  created, and \<open>push\<close> throws, so that no grouping is returned at all.
\<close>

theorem inherited_key_throws:
  "groupMetrics [constructor_evaluation] = Inl TypeError"
  by (simp add: groupMetrics_def constructor_evaluation_def or_unknown_def ensure_bucket_def
      push_bucket_def objectPrototypeKeys_def Let_def)


section \<open>Properties of rounding\<close>

lemma round_even_of_int: "round_even (of_int n) = n"
  by (simp add: round_even_def)

lemma to_double_0: "to_double 0 = Num 0"
  by (simp add: to_double_def)

lemma to_double_pow2:
  assumes "- 1022 \<le> k" "k \<le> 1023"
  shows "to_double (2 powr of_int k) = Num (2 powr of_int k)"
proof -
  let ?x = "2 powr of_int k :: real"
  have x0: "?x \<noteq> 0" "0 < ?x" by simp_all
  have e: "max \<lfloor>log 2 \<bar>?x\<bar>\<rfloor> (- 1022) = k"
    using assms by simp
  have quot: "?x / 2 powr of_int (k - 52) = of_int (2 ^ 52)"
  proof -
    have "?x / 2 powr of_int (k - 52) = 2 powr (of_int k - of_int (k - 52))"
      by (simp add: powr_diff)
    also have "\<dots> = 2 powr 52" by simp
    finally show ?thesis by simp
  qed
  have unscale: "of_int (2 ^ 52) * 2 powr of_int (k - 52) = ?x"
    using quot by (simp add: field_simps)
  have small: "\<not> 2 ^ 1024 \<le> \<bar>?x\<bar>"
  proof -
    have "?x \<le> 2 powr of_int (1023 :: int)"
      using assms by (intro powr_mono) simp_all
    also have "\<dots> < 2 powr of_int (1024 :: int)"
      by (intro powr_less_mono) simp_all
    also have "\<dots> = 2 ^ 1024" by simp
    finally show ?thesis by simp
  qed
  show ?thesis
    unfolding to_double_def Let_def e quot round_even_of_int unscale
    using x0 small by simp
qed

lemma to_double_1: "to_double 1 = Num 1"
  using to_double_pow2 [of 0] by simp

lemma round_even_ge_floor: "\<lfloor>r\<rfloor> \<le> round_even r"
  by (simp add: round_even_def Let_def)

lemma round_even_small: "0 \<le> r \<Longrightarrow> r < 1 / 2 \<Longrightarrow> round_even r = 0"
proof -
  assume r: "0 \<le> r" "r < 1 / 2"
  then have "\<lfloor>r\<rfloor> = 0" by (simp add: floor_eq_iff)
  with r show ?thesis by (simp add: round_even_def)
qed

lemma to_double_unfold:
  assumes "x \<noteq> 0" "max \<lfloor>log 2 \<bar>x\<bar>\<rfloor> (- 1022) = e"
    and "round_even (x / (2::real) powr of_int (e - 52)) = n"
  shows "to_double x =
           (if (2::real) ^ 1024 \<le> \<bar>of_int n * (2::real) powr of_int (e - 52)\<bar>
            then (if 0 < x then PosInf else NegInf)
            else Num (of_int n * (2::real) powr of_int (e - 52)))"
  using assms unfolding to_double_def Let_def by (simp only: if_False)

lemma floor_log_ge: "0 < x \<Longrightarrow> (2::real) powr of_int k \<le> x \<Longrightarrow> k \<le> \<lfloor>log 2 x\<rfloor>"
proof -
  assume x: "0 < x" and le: "(2::real) powr of_int k \<le> x"
  have "log 2 ((2::real) powr of_int k) \<le> log 2 x"
    using x le by (intro log_mono) simp_all
  then have "of_int k \<le> log 2 x" by simp
  then show ?thesis by (simp add: le_floor_iff)
qed

lemma floor_log_less: "0 < x \<Longrightarrow> x < (2::real) powr of_int k \<Longrightarrow> \<lfloor>log 2 x\<rfloor> < k"
proof -
  assume x: "0 < x" and less: "x < (2::real) powr of_int k"
  have "log 2 x < log 2 ((2::real) powr of_int k)"
    using x less by (intro log_less) simp_all
  then have "log 2 x < of_int k" by simp
  then show ?thesis by (simp add: floor_less_iff)
qed

lemma scaled_pow2: "(2::real) powr of_int k / (2::real) powr of_int (k - 52) = (of_int (2 ^ 52) :: real)"
proof -
  have "(2::real) powr of_int k / (2::real) powr of_int (k - 52) = (2::real) powr (of_int k - of_int (k - 52))"
    by (simp only: powr_diff)
  also have "\<dots> = (2::real) powr 52" by simp
  finally show ?thesis by simp
qed

lemma rounds_up_to_power:
  assumes x: "0 < x" and k: "k \<le> \<lfloor>log 2 x\<rfloor>"
  shows "(2::real) powr of_int k
         \<le> of_int (round_even (x / (2::real) powr of_int (\<lfloor>log 2 x\<rfloor> - 52))) * (2::real) powr of_int (\<lfloor>log 2 x\<rfloor> - 52)"
proof -
  let ?l = "\<lfloor>log 2 x\<rfloor>"
  let ?q = "(2::real) powr of_int (?l - 52) :: real"
  have q: "0 < ?q" by simp
  have "(2::real) powr of_int ?l \<le> (2::real) powr log 2 x"
    by (intro powr_mono) simp_all
  then have le: "(2::real) powr of_int ?l \<le> x"
    using x by simp
  have "of_int (2 ^ 52) \<le> x / ?q"
    using le q unfolding scaled_pow2 [of ?l, symmetric] by (simp only: divide_right_mono less_imp_le)
  then have "2 ^ 52 \<le> \<lfloor>x / ?q\<rfloor>"
    by (simp only: le_floor_iff)
  then have n: "(2 ^ 52 :: int) \<le> round_even (x / ?q)"
    using round_even_ge_floor [of "x / ?q"] by linarith
  have "(2::real) powr of_int k \<le> (2::real) powr of_int ?l"
    using k by (intro powr_mono) simp_all
  also have "\<dots> = of_int (2 ^ 52) * ?q"
    using scaled_pow2 [of ?l] q by (simp add: field_simps)
  also have "\<dots> \<le> of_int (round_even (x / ?q)) * ?q"
  proof (rule mult_right_mono)
    show "(of_int (2 ^ 52) :: real) \<le> of_int (round_even (x / ?q))"
      using n by (simp only: of_int_le_iff)
    show "0 \<le> ?q" by simp
  qed
  finally show ?thesis .
qed

lemma to_double_overflow:
  assumes "(2::real) ^ 1024 \<le> x"
  shows "to_double x = PosInf"
proof -
  have big: "(2::real) powr of_int 1024 = 2 ^ 1024" by simp
  have "(0::real) < 2 ^ 1024" by (rule zero_less_power) simp
  with assms have x: "0 < x" by linarith
  then have ax: "\<bar>x\<bar> = x" by simp
  from assms have "(2::real) powr of_int 1024 \<le> x" unfolding big .
  from floor_log_ge [OF x this] have l: "1024 \<le> \<lfloor>log 2 x\<rfloor>" .
  then have e: "max \<lfloor>log 2 \<bar>x\<bar>\<rfloor> (- 1022) = \<lfloor>log 2 x\<rfloor>"
    unfolding ax by linarith
  from rounds_up_to_power [OF x l]
  have "(2::real) ^ 1024 \<le> of_int (round_even (x / (2::real) powr of_int (\<lfloor>log 2 x\<rfloor> - 52)))
          * (2::real) powr of_int (\<lfloor>log 2 x\<rfloor> - 52)"
    unfolding big .
  then have "(2::real) ^ 1024 \<le> \<bar>of_int (round_even (x / (2::real) powr of_int (\<lfloor>log 2 x\<rfloor> - 52)))
          * (2::real) powr of_int (\<lfloor>log 2 x\<rfloor> - 52)\<bar>"
    by linarith
  with to_double_unfold [OF _ e refl] x show ?thesis
    by (simp only: if_True)
qed

lemma half_quotient:
  assumes "0 < x" "x < (2::real) powr of_int (e - 53)"
  shows "x / (2::real) powr of_int (e - 52) < 1 / 2"
proof -
  have "x / (2::real) powr of_int (e - 52) < (2::real) powr of_int (e - 53) / (2::real) powr of_int (e - 52)"
    using assms by (intro divide_strict_right_mono) simp_all
  also have "\<dots> = (2::real) powr (of_int (e - 53) - of_int (e - 52))"
    by (simp only: powr_diff)
  also have "\<dots> = (2::real) powr (- 1)" by simp
  also have "\<dots> = 1 / 2 powr 1" by (rule powr_minus_divide)
  also have "\<dots> = 1 / 2" by simp
  finally show ?thesis .
qed

lemma to_double_underflow:
  assumes "0 < x" "x < (2::real) powr of_int (- 1075)"
  shows "to_double x = Num 0"
proof -
  from assms have ax: "\<bar>x\<bar> = x" by simp
  from floor_log_less [OF assms] have "\<lfloor>log 2 x\<rfloor> < - 1075" .
  then have e: "max \<lfloor>log 2 \<bar>x\<bar>\<rfloor> (- 1022) = - 1022"
    unfolding ax by linarith
  have "x < (2::real) powr of_int (- 1022 - 53)"
    using assms(2) by simp
  from half_quotient [OF assms(1) this]
  have "x / (2::real) powr of_int (- 1022 - 52) < 1 / 2" .
  moreover have "0 \<le> x / (2::real) powr of_int (- 1022 - 52)"
    using assms by simp
  ultimately have n: "round_even (x / (2::real) powr of_int (- 1022 - 52)) = 0"
    by (intro round_even_small)
  from assms have "x \<noteq> 0" by simp
  from to_double_unfold [OF this e n] have
    "to_double x = (if (2::real) ^ 1024 \<le> \<bar>of_int 0 * (2::real) powr of_int (- 1022 - 52)\<bar>
       then (if 0 < x then PosInf else NegInf)
       else Num (of_int 0 * (2::real) powr of_int (- 1022 - 52)))" .
  also have "of_int 0 * (2::real) powr of_int (- 1022 - 52) = 0" by (simp only: of_int_0 mult_zero_left)
  finally show ?thesis by simp
qed


section \<open>Properties of cosine similarity\<close>

lemmas double_arith =
  dbl_add_def dbl_mul_def dbl_div_def dbl_sqrt_def to_double_0 to_double_1


















text \<open>
  Where a square overflows the result is \<open>NaN\<close>, and where it underflows the result can
  be an infinity, though neither vector has norm zero.
\<close>

lemma cosine_square_underflows:
  assumes "0 < x" "to_double x = Num x" "to_double (x * x) = Num 0"
  shows "cosineSimilarity [x] [1] = PosInf"
  using assms
  by (simp add: cosineSimilarity_def cosine_step_def js_index_def double_arith)

lemma cosine_square_overflows:
  assumes "to_double (x * x) = PosInf"
  shows "cosineSimilarity [x] [x] = NaN"
  using assms
  by (simp add: cosineSimilarity_def cosine_step_def js_index_def double_arith)

lemma cosine_overflow_example: "cosineSimilarity [2 ^ 600] [2 ^ 600] = NaN"
proof -
  have "(2::real) ^ 1024 \<le> 2 ^ 600 * 2 ^ 600"
    by (simp add: power_add [symmetric])
  then have "to_double (2 ^ 600 * 2 ^ 600) = PosInf"
    by (rule to_double_overflow)
  then show ?thesis by (rule cosine_square_overflows)
qed

lemma cosine_underflow_example: "cosineSimilarity [1 / 2 ^ 600] [1] = PosInf"
proof -
  have p: "(2::real) powr of_int (- 600) = 1 / 2 ^ 600"
    by (simp add: powr_minus_divide)
  have dot: "to_double (1 / 2 ^ 600) = Num (1 / 2 ^ 600)"
    using to_double_pow2 [of "- 600"] unfolding p by simp
  have m: "(1::real) / 2 ^ 600 * (1 / 2 ^ 600) = 1 / 2 ^ 1200"
    by (simp add: power_add [symmetric])
  have "(2::real) powr of_int (- 1200) < 2 powr of_int (- 1075)"
    by (intro powr_less_mono) simp_all
  moreover have "(2::real) powr of_int (- 1200) = 1 / 2 ^ 1200"
    by (simp add: powr_minus_divide)
  ultimately have less: "(1::real) / 2 ^ 1200 < 2 powr of_int (- 1075)"
    by (simp only:)
  have "(0::real) < 1 / 2 ^ 1200" by simp
  from to_double_underflow [OF this less]
  have sq: "to_double (1 / 2 ^ 600 * (1 / 2 ^ 600)) = Num 0"
    unfolding m .
  have pos: "(0::real) < 1 / 2 ^ 600" by simp
  from pos dot sq show ?thesis by (rule cosine_square_underflows)
qed


lemma cosine_unit: "cosineSimilarity [1] [1] = Num 1"
  by (simp add: cosineSimilarity_def cosine_step_def js_index_def double_arith)




section \<open>Properties of the chunker\<close>

lemma promise_all_length: "promise_all xs = Some ys \<Longrightarrow> length ys = length xs"
proof (induction xs arbitrary: ys)
  case Nil
  then show ?case by simp
next
  case (Cons x xs)
  then show ?case by (cases x) auto
qed

lemma promise_all_None: "promise_all xs = None \<longleftrightarrow> None \<in> set xs"
proof (induction xs)
  case Nil
  then show ?case by simp
next
  case (Cons x xs)
  then show ?case by (cases x) auto
qed

lemma promise_all_total:
  "\<forall>x \<in> set xs. x \<noteq> None \<Longrightarrow> \<exists>ys. promise_all xs = Some ys"
proof (induction xs)
  case Nil
  then show ?case by simp
next
  case (Cons x xs)
  then show ?case by (cases x) auto
qed

subsection \<open>The chunks partition the sentences\<close>

lemma chunk_step_concat:
  "concat (chunks (chunk_step (\<lambda>ss. ss) tok thr maxT minT prev sent emb st))
     @ currentSentences (chunk_step (\<lambda>ss. ss) tok thr maxT minT prev sent emb st)
   = concat (chunks st) @ currentSentences st @ [sent]"
  by (simp add: chunk_step_def Let_def)

lemma chunk_loop_concat:
  "concat (chunks (chunk_loop (\<lambda>ss. ss) tok thr maxT minT prev rest st))
     @ currentSentences (chunk_loop (\<lambda>ss. ss) tok thr maxT minT prev rest st)
   = concat (chunks st) @ currentSentences st @ map fst rest"
proof (induction rest arbitrary: prev st)
  case Nil
  then show ?case by simp
next
  case (Cons p rest)
  obtain sent emb where p: "p = (sent, emb)" by (cases p)
  show ?case
    unfolding p using Cons.IH [of emb] chunk_step_concat [of tok thr maxT minT prev sent emb st]
    by simp
qed

lemma chunk_sentences_concat:
  "concat (chunk_sentences (\<lambda>ss. ss) tok opts sentences embs) = map fst (zip sentences embs)"
  using chunk_loop_concat [of tok "opt_threshold opts" "opt_maxTokens opts" "opt_minTokens opts"
      "[]" "zip sentences embs" "\<lparr>chunks = [], currentSentences = [], currentTokens = 0\<rparr>"]
  by (auto simp: chunk_sentences_def Let_def)

text \<open>The program's loop stores the joined strings of the groups and is otherwise the same.\<close>

lemma chunk_step_flush:
  "chunk_step flush tok thr maxT minT prev sent emb (flush_state flush st)
   = flush_state flush (chunk_step (\<lambda>ss. ss) tok thr maxT minT prev sent emb st)"
  by (simp add: chunk_step_def flush_state_def Let_def)

lemma chunk_loop_flush:
  "chunk_loop flush tok thr maxT minT prev rest (flush_state flush st)
   = flush_state flush (chunk_loop (\<lambda>ss. ss) tok thr maxT minT prev rest st)"
proof (induction rest arbitrary: prev st)
  case Nil
  then show ?case by simp
next
  case (Cons p rest)
  obtain sent emb where p: "p = (sent, emb)" by (cases p)
  show ?case unfolding p by (simp add: chunk_step_flush Cons.IH)
qed

lemma chunk_sentences_flush:
  "chunk_sentences flush tok opts sentences embs
   = map flush (chunk_sentences (\<lambda>ss. ss) tok opts sentences embs)"
proof -
  have init: "\<lparr>chunks = [], currentSentences = [], currentTokens = 0\<rparr>
              = flush_state flush \<lparr>chunks = [], currentSentences = [], currentTokens = 0\<rparr>"
    by (simp add: flush_state_def)
  have "chunk_loop flush tok (opt_threshold opts) (opt_maxTokens opts) (opt_minTokens opts) []
          (zip sentences embs) \<lparr>chunks = [], currentSentences = [], currentTokens = 0\<rparr>
        = flush_state flush
            (chunk_loop (\<lambda>ss. ss) tok (opt_threshold opts) (opt_maxTokens opts)
               (opt_minTokens opts) [] (zip sentences embs)
               \<lparr>chunks = [], currentSentences = [], currentTokens = 0\<rparr>)"
    by (subst init) (rule chunk_loop_flush)
  then show ?thesis
    by (simp add: chunk_sentences_def flush_state_def Let_def)
qed

text \<open>The run of the examples: two sentences, two and four tokens, one chunk.\<close>

lemma tight_groups:
  "chunk_groups split_at_stops char_count ''A.BCD.'' unit_embedding tight_options
   = [[''A.'', ''BCD.'']]"
  by (simp add: chunk_groups_def split_at_stops_def unit_embedding_def chunk_sentences_def
      chunk_step_def tight_options_def opt_threshold_def opt_maxTokens_def opt_minTokens_def
      char_count_def cosine_unit Let_def)

lemma tight_outcome:
  "outcome (semanticChunkWithLimits split_at_stops char_count ''A.BCD.'' unit_embedding tight_options)
   = Inr [''A. BCD.'']"
  by (simp add: semanticChunkWithLimits_def split_at_stops_def unit_embedding_def
      chunk_sentences_def chunk_step_def tight_options_def opt_threshold_def opt_maxTokens_def
      opt_minTokens_def char_count_def cosine_unit Let_def)

text \<open>
  Claim C2.  The chunks that \<open>semanticChunkWithLimits\<close> returns are the joined strings
  of groups of sentences, and the groups, one after the other, are the sentence sequence
  of \<open>splitIntoSentences\<close>: nothing dropped, nothing twice, the order kept.
\<close>

theorem chunks_partition_sentences:
  assumes "outcome (semanticChunkWithLimits splitIntoSentences tok text embedFn opts) = Inr cs"
  shows "cs = map join_space (chunk_groups splitIntoSentences tok text embedFn opts) \<and>
         concat (chunk_groups splitIntoSentences tok text embedFn opts) = splitIntoSentences text"
proof (cases "promise_all (map embedFn (splitIntoSentences text))")
  case None
  with assms show ?thesis by (simp add: semanticChunkWithLimits_def Let_def)
next
  case (Some embs)
  then have len: "length embs = length (splitIntoSentences text)"
    using promise_all_length by fastforce
  from Some assms have "cs = chunk_sentences join_space tok opts (splitIntoSentences text) embs"
    by (simp add: semanticChunkWithLimits_def Let_def)
  then have "cs = map join_space (chunk_sentences (\<lambda>ss. ss) tok opts (splitIntoSentences text) embs)"
    by (subst (asm) chunk_sentences_flush)
  moreover have "concat (chunk_sentences (\<lambda>ss. ss) tok opts (splitIntoSentences text) embs)
                 = splitIntoSentences text"
    using len by (simp add: chunk_sentences_concat)
  ultimately show ?thesis using Some by (simp add: chunk_groups_def)
qed

text \<open>
  Claim C2 on three sentences of four, three and two tokens with \<open>minTokens = 3\<close> and
  \<open>maxTokens = 5\<close>: the first sentence is a chunk, the other two are the second chunk.
\<close>

theorem chunks_partition_sentences_witness:
  "outcome (semanticChunkWithLimits split_at_stops char_count ''ABC.DE.F.'' unit_embedding tight_options)
     = Inr [''ABC.'', ''DE. F.''] \<and>
   [''ABC.'', ''DE. F.''] = map join_space
     (chunk_groups split_at_stops char_count ''ABC.DE.F.'' unit_embedding tight_options) \<and>
   concat (chunk_groups split_at_stops char_count ''ABC.DE.F.'' unit_embedding tight_options)
     = split_at_stops ''ABC.DE.F.'' \<and>
   split_at_stops ''ABC.DE.F.'' = [''ABC.'', ''DE.'', ''F.'']"
proof -
  have run: "outcome (semanticChunkWithLimits split_at_stops char_count ''ABC.DE.F.''
               unit_embedding tight_options) = Inr [''ABC.'', ''DE. F.'']"
    by (simp add: semanticChunkWithLimits_def split_at_stops_def unit_embedding_def
        chunk_sentences_def chunk_step_def tight_options_def opt_threshold_def opt_maxTokens_def
        opt_minTokens_def char_count_def cosine_unit Let_def)
  have "split_at_stops ''ABC.DE.F.'' = [''ABC.'', ''DE.'', ''F.'']"
    by (simp add: split_at_stops_def)
  with chunks_partition_sentences [OF run] run show ?thesis by simp
qed

subsection \<open>The token limit\<close>

lemma chunk_tokens_snoc: "chunk_tokens tok (ss @ [s]) = chunk_tokens tok ss + tok s"
  by (simp add: chunk_tokens_def)

lemma chunk_step_inv:
  assumes "chunk_inv tok maxT minT st"
  shows "chunk_inv tok maxT minT (chunk_step (\<lambda>ss. ss) tok thr maxT minT prev sent emb st)"
proof (cases "currentSentences st = []")
  case True
  with assms show ?thesis
    by (auto simp: chunk_step_def chunk_inv_def Let_def chunk_tokens_def capped_def within_hard_cap_def)
next
  case False
  let ?split = "(js_lt (cosineSimilarity prev emb) (Num thr) \<or> maxT < currentTokens st + tok sent)
                \<and> minT \<le> currentTokens st"
  show ?thesis
  proof (cases ?split)
    case True
    with False assms show ?thesis
      by (auto simp: chunk_step_def chunk_inv_def Let_def chunk_tokens_def capped_def within_hard_cap_def)
  next
    case nosplit: False
    have cur: "currentTokens st = chunk_tokens tok (currentSentences st)"
      using assms by (simp add: chunk_inv_def)
    have "capped tok maxT minT (currentSentences st @ [sent])"
    proof (cases "currentTokens st < minT")
      case True
      then show ?thesis by (simp add: capped_def split_suppressed_def cur)
    next
      case False
      with nosplit have "currentTokens st + tok sent \<le> maxT" by auto
      then show ?thesis
        by (simp add: capped_def within_hard_cap_def chunk_tokens_snoc cur)
    qed
    moreover have "chunk_step (\<lambda>ss. ss) tok thr maxT minT prev sent emb st
                   = st\<lparr>currentSentences := currentSentences st @ [sent],
                        currentTokens := currentTokens st + tok sent\<rparr>"
      using False nosplit by (auto simp: chunk_step_def Let_def)
    ultimately show ?thesis
      using assms by (simp add: chunk_inv_def chunk_tokens_snoc)
  qed
qed

lemma chunk_loop_inv:
  "chunk_inv tok maxT minT st \<Longrightarrow>
   chunk_inv tok maxT minT (chunk_loop (\<lambda>ss. ss) tok thr maxT minT prev rest st)"
proof (induction rest arbitrary: prev st)
  case Nil
  then show ?case by simp
next
  case (Cons p rest)
  obtain sent emb where p: "p = (sent, emb)" by (cases p)
  show ?case unfolding p using Cons by (simp add: chunk_step_inv)
qed

lemma chunk_sentences_capped:
  "list_all (capped tok (opt_maxTokens opts) (opt_minTokens opts))
     (chunk_sentences (\<lambda>ss. ss) tok opts sentences embs)"
proof -
  have "chunk_inv tok (opt_maxTokens opts) (opt_minTokens opts)
          \<lparr>chunks = [], currentSentences = [], currentTokens = 0\<rparr>"
    by (simp add: chunk_inv_def chunk_tokens_def)
  from chunk_loop_inv [OF this, of "opt_threshold opts" "[]" "zip sentences embs"]
  show ?thesis
    by (auto simp: chunk_sentences_def Let_def chunk_inv_def)
qed

text \<open>
  Claim C1, as the program has it.  Every chunk has at most \<open>maxTokens\<close> tokens, or is
  one sentence that alone exceeds \<open>maxTokens\<close>, or its sentences before the last one
  have fewer than \<open>minTokens\<close> tokens in all: below \<open>minTokens\<close> the loop never splits,
  whatever the next sentence adds.
\<close>

theorem chunk_cap_unless_below_min:
  assumes "g \<in> set (chunk_groups splitIntoSentences tok text embedFn opts)"
  shows "chunk_tokens tok g \<le> opt_maxTokens opts \<or>
         (length g = 1 \<and> opt_maxTokens opts < chunk_tokens tok g) \<or>
         chunk_tokens tok (butlast g) < opt_minTokens opts"
proof (cases "promise_all (map embedFn (splitIntoSentences text))")
  case None
  with assms show ?thesis by (simp add: chunk_groups_def)
next
  case (Some embs)
  with assms have "g \<in> set (chunk_sentences (\<lambda>ss. ss) tok opts (splitIntoSentences text) embs)"
    by (simp add: chunk_groups_def)
  with chunk_sentences_capped [of tok opts "splitIntoSentences text" embs]
  have "capped tok (opt_maxTokens opts) (opt_minTokens opts) g"
    by (simp add: list_all_iff)
  then show ?thesis
    by (auto simp: capped_def within_hard_cap_def split_suppressed_def)
qed

text \<open>Claim C1 as amended, on the chunk of the run of the examples.\<close>

theorem chunk_cap_unless_below_min_witness:
  "[''A.'', ''BCD.''] \<in> set (chunk_groups split_at_stops char_count ''A.BCD.'' unit_embedding tight_options) \<and>
   (chunk_tokens char_count [''A.'', ''BCD.''] \<le> opt_maxTokens tight_options \<or>
    (length [''A.'', ''BCD.''] = 1 \<and> opt_maxTokens tight_options < chunk_tokens char_count [''A.'', ''BCD.'']) \<or>
    chunk_tokens char_count (butlast [''A.'', ''BCD.'']) < opt_minTokens tight_options)"
  using chunk_cap_unless_below_min [of "[''A.'', ''BCD.'']" split_at_stops char_count "''A.BCD.''"
      unit_embedding tight_options]
  by (simp add: tight_groups)

text \<open>
  Claim C1 as stated fails with \<open>minTokens = 3\<close> and \<open>maxTokens = 5\<close> on a sentence of two
  tokens followed by one of four: the chunk holds both sentences and six tokens.
\<close>

theorem hard_cap_counterexample:
  "valid_options tight_options \<and>
   outcome (semanticChunkWithLimits split_at_stops char_count ''A.BCD.'' unit_embedding tight_options)
     = Inr [''A. BCD.''] \<and>
   chunk_groups split_at_stops char_count ''A.BCD.'' unit_embedding tight_options
     = [[''A.'', ''BCD.'']] \<and>
   \<not> list_all (within_hard_cap char_count (opt_maxTokens tight_options))
       (chunk_groups split_at_stops char_count ''A.BCD.'' unit_embedding tight_options)"
  unfolding tight_groups tight_outcome
  by (simp add: tight_options_def opt_threshold_def opt_maxTokens_def opt_minTokens_def
      char_count_def valid_options_def within_hard_cap_def chunk_tokens_def)

subsection \<open>Options and empty segmentations\<close>

text \<open>
  Claim C5, as the program has it.  With \<open>minTokens > maxTokens\<close> nothing is rejected:
  the embedding function is called once for every sentence, in order, and when every
  call succeeds the chunks are returned as for any other options.
\<close>

theorem reversed_limits_not_rejected:
  assumes "opt_maxTokens opts < opt_minTokens opts"
  shows "embedCalls (semanticChunkWithLimits splitIntoSentences tok text embedFn opts)
           = splitIntoSentences text \<and>
         ((\<forall>s \<in> set (splitIntoSentences text). embedFn s \<noteq> None) \<longrightarrow>
          outcome (semanticChunkWithLimits splitIntoSentences tok text embedFn opts)
            = Inr (map join_space (chunk_groups splitIntoSentences tok text embedFn opts)))"
proof (intro conjI impI)
  show "embedCalls (semanticChunkWithLimits splitIntoSentences tok text embedFn opts)
          = splitIntoSentences text"
    by (simp add: semanticChunkWithLimits_def Let_def)
next
  assume "\<forall>s \<in> set (splitIntoSentences text). embedFn s \<noteq> None"
  then have "\<forall>x \<in> set (map embedFn (splitIntoSentences text)). x \<noteq> None"
    by simp
  from promise_all_total [OF this] obtain embs where
    embs: "promise_all (map embedFn (splitIntoSentences text)) = Some embs" by blast
  then show "outcome (semanticChunkWithLimits splitIntoSentences tok text embedFn opts)
          = Inr (map join_space (chunk_groups splitIntoSentences tok text embedFn opts))"
    by (simp add: semanticChunkWithLimits_def chunk_groups_def Let_def
        chunk_sentences_flush [of join_space])
qed

text \<open>Claim C5 as amended, with \<open>minTokens = 5\<close> and \<open>maxTokens = 3\<close>.\<close>

theorem reversed_limits_not_rejected_witness:
  "opt_maxTokens reversed_options < opt_minTokens reversed_options \<and>
   embedCalls (semanticChunkWithLimits split_at_stops char_count ''A.BCD.'' unit_embedding reversed_options)
     = split_at_stops ''A.BCD.'' \<and>
   outcome (semanticChunkWithLimits split_at_stops char_count ''A.BCD.'' unit_embedding reversed_options)
     = Inr (map join_space
         (chunk_groups split_at_stops char_count ''A.BCD.'' unit_embedding reversed_options))"
  using reversed_limits_not_rejected [of reversed_options split_at_stops char_count "''A.BCD.''"
      unit_embedding]
  by (simp add: reversed_options_def opt_maxTokens_def opt_minTokens_def unit_embedding_def)

text \<open>
  Claim C5 as stated fails with \<open>minTokens = 5\<close> and \<open>maxTokens = 3\<close>: the embedding
  function is called for both sentences and a chunk is returned.
\<close>

theorem no_configuration_error_counterexample:
  "opt_maxTokens reversed_options < opt_minTokens reversed_options \<and>
   embedCalls (semanticChunkWithLimits split_at_stops char_count ''A.BCD.'' unit_embedding reversed_options)
     = [''A.'', ''BCD.''] \<and>
   outcome (semanticChunkWithLimits split_at_stops char_count ''A.BCD.'' unit_embedding reversed_options)
     = Inr [''A. BCD.'']"
  by (simp add: semanticChunkWithLimits_def split_at_stops_def unit_embedding_def
      chunk_sentences_def chunk_step_def reversed_options_def opt_threshold_def opt_maxTokens_def
      opt_minTokens_def char_count_def cosine_unit Let_def)






end
